theory Spec2Isabelle
  imports Complex_Main "HOL-Library.Sublist"
begin

section \<open>JavaScript strings, arrays and numbers\<close>

text \<open>
  A JavaScript string is a sequence of UTF-16 code units. The model is \<^typ>\<open>string\<close>
  (a list of \<^typ>\<open>char\<close>), each \<^typ>\<open>char\<close> read as the code unit of the same number,
  so the model covers the documents written in the range U+0000 to U+00FF. In that range
  \<^verbatim>\<open>toLowerCase\<close> maps code unit to code unit, and the white space of \<^verbatim>\<open>\s\<close> and of
  \<^verbatim>\<open>trim\<close> is the six ASCII characters and the no-break space.

  The numbers the service computes with (\<^verbatim>\<open>page\<close>, \<^verbatim>\<open>pageSize\<close>, time stamps, line
  indices) are modelled as mathematical integers: the caller's interface declares them
  integers, and on integers below \<open>2^53\<close> the arithmetic of the source is exact. The one
  non-integer value the source can compute from integers, \<^verbatim>\<open>Infinity\<close> for a division by
  zero, is kept.
\<close>

definition newline :: char where
  "newline = CHR 0x0A"

text \<open>\<^verbatim>\<open>s.split(sep)\<close> for a separator of one character: never the empty array.\<close>

fun split :: "string \<Rightarrow> char \<Rightarrow> string list" where
  "split [] sep = [[]]"
| "split (c # cs) sep =
     (if c = sep then [] # split cs sep
      else (c # hd (split cs sep)) # tl (split cs sep))"

text \<open>\<^verbatim>\<open>xs.join(sep)\<close>.\<close>

fun join :: "string list \<Rightarrow> string \<Rightarrow> string" where
  "join [] sep = []"
| "join [x] sep = x"
| "join (x # y # ys) sep = x @ sep @ join (y # ys) sep"

text \<open>
  \<^verbatim>\<open>xs.slice(start, end)\<close> on integer arguments: a negative index counts from the end,
  and both indices are clamped to the array.
\<close>

definition slice :: "'a list \<Rightarrow> int \<Rightarrow> int \<Rightarrow> 'a list" where
  "slice xs start stop =
     (let len = int (length xs);
          k = (if start < 0 then max (len + start) 0 else min start len);
          final = (if stop < 0 then max (len + stop) 0 else min stop len)
      in take (nat (final - k)) (drop (nat k) xs))"

text \<open>\<^verbatim>\<open>s.repeat(n)\<close> for a count that is not negative.\<close>

definition repeat :: "string \<Rightarrow> nat \<Rightarrow> string" where
  "repeat s n = concat (replicate n s)"

text \<open>The white space of \<^verbatim>\<open>\s\<close> and \<^verbatim>\<open>trim\<close>, and the line terminators that \<^verbatim>\<open>.\<close> refuses.\<close>

definition is_space :: "char \<Rightarrow> bool" where
  "is_space c =
     (c = CHR 0x09 \<or> c = CHR 0x0A \<or> c = CHR 0x0B \<or> c = CHR 0x0C \<or> c = CHR 0x0D
      \<or> c = CHR 0x20 \<or> c = CHR 0xA0)"

definition is_line_terminator :: "char \<Rightarrow> bool" where
  "is_line_terminator c = (c = CHR 0x0A \<or> c = CHR 0x0D)"

definition trim :: "string \<Rightarrow> string" where
  "trim s = rev (dropWhile is_space (rev (dropWhile is_space s)))"

text \<open>
  \<^verbatim>\<open>toLowerCase\<close> below U+0100: the letters A to Z, and the capital letters of
  U+00C0 to U+00DE but the multiplication sign U+00D7, move up by 32.
\<close>

definition lower_char :: "char \<Rightarrow> char" where
  "lower_char c =
     (let n = (of_char c :: nat)
      in if (65 \<le> n \<and> n \<le> 90) \<or> (192 \<le> n \<and> n \<le> 222 \<and> n \<noteq> 215)
         then char_of (n + 32) else c)"

definition toLowerCase :: "string \<Rightarrow> string" where
  "toLowerCase s = map lower_char s"

text \<open>\<^verbatim>\<open>s.includes(t)\<close>: \<open>t\<close> occurs in \<open>s\<close> at some position.\<close>

fun includes_str :: "string \<Rightarrow> string \<Rightarrow> bool" where
  "includes_str [] t = (t = [])"
| "includes_str (c # cs) t = (prefix t (c # cs) \<or> includes_str cs t)"

text \<open>A number in a template literal: decimal digits, a minus sign, or \<^verbatim>\<open>Infinity\<close>.\<close>

datatype jsnumber = Finite int | Infinity

definition digit_char :: "nat \<Rightarrow> char" where
  "digit_char d = ''0123456789'' ! d"

fun show_nat :: "nat \<Rightarrow> string" where
  "show_nat n = (if n < 10 then [digit_char n] else show_nat (n div 10) @ [digit_char (n mod 10)])"

declare show_nat.simps [simp del]

definition show_int :: "int \<Rightarrow> string" where
  "show_int i = (if i < 0 then CHR ''-'' # show_nat (nat (- i)) else show_nat (nat i))"

fun show_number :: "jsnumber \<Rightarrow> string" where
  "show_number (Finite i) = show_int i"
| "show_number Infinity = ''Infinity''"

text \<open>
  \<^verbatim>\<open>Math.ceil(len / pageSize)\<close> for the length of a non-empty array: dividing by zero
  gives \<^verbatim>\<open>Infinity\<close>.
\<close>

definition ceil_div :: "nat \<Rightarrow> int \<Rightarrow> jsnumber" where
  "ceil_div len pageSize =
     (if pageSize = 0 then Infinity
      else Finite \<lceil>real len / real_of_int pageSize\<rceil>)"

text \<open>\<^verbatim>\<open>page > totalPages\<close>.\<close>

fun greater_than :: "int \<Rightarrow> jsnumber \<Rightarrow> bool" where
  "greater_than p (Finite n) = (p > n)"
| "greater_than p Infinity = False"

section \<open>The data of the documentation service\<close>

record CachedContent =
  content :: string
  timestamp :: int

record Section =
  title :: string
  level :: nat
  content :: string
  startLine :: int
  endLine :: int

record Metadata =
  totalSections :: "nat option"
  currentSection :: "string option"
  totalPages :: "jsnumber option"
  currentPage :: "int option"
  pageSize :: "int option"

record PaginationResult =
  content :: string
  metadata :: Metadata

definition no_metadata :: Metadata where
  "no_metadata = \<lparr>totalSections = None, currentSection = None, totalPages = None,
     currentPage = None, pageSize = None\<rparr>"

section \<open>Numeric pagination\<close>

definition getPage :: "string \<Rightarrow> int \<Rightarrow> int \<Rightarrow> PaginationResult" where
  "getPage doc page psize =
     (let lines = split doc newline;
          total_pages = ceil_div (length lines) psize
      in if page < 1 \<or> greater_than page total_pages
         then \<lparr>PaginationResult.content =
                  ''# Invalid Page\<newline>\<newline>Page '' @ show_int page
                  @ '' is out of range. Total pages: '' @ show_number total_pages,
                metadata = no_metadata\<lparr>totalPages := Some total_pages, pageSize := Some psize\<rparr>\<rparr>
         else
           (let start_line = (page - 1) * psize;
                end_line = min (start_line + psize) (int (length lines));
                page_content = join (slice lines start_line end_line) [newline]
            in \<lparr>PaginationResult.content = page_content,
                metadata = no_metadata\<lparr>totalPages := Some total_pages,
                  currentPage := Some page, pageSize := Some psize\<rparr>\<rparr>))"

section \<open>The section parser\<close>

text \<open>
  The heading test is the regular expression \<^verbatim>\<open>/^(#{1,6})\s+(.+)$/\<close>, matched as the
  backtracking matcher of JavaScript does. \<open>dot_plus_end\<close> is \<^verbatim>\<open>(.+)$\<close>: with no
  \<^verbatim>\<open>m\<close> flag the \<^verbatim>\<open>$\<close> stands at the end of the input only, so the group is the
  whole rest of the line, which must be non-empty and free of line terminators.
  \<open>space_plus m\<close> is \<^verbatim>\<open>\s+\<close> trying \<open>m\<close> characters of white space first, then fewer,
  and \<open>hash_group k\<close> is \<^verbatim>\<open>^(#{1,6})\<close> trying \<open>k\<close> hashes first, then fewer. The
  result holds the two groups of the first match found.
\<close>

definition dot_plus_end :: "string \<Rightarrow> string option" where
  "dot_plus_end s =
     (if s \<noteq> [] \<and> list_all (\<lambda>c. \<not> is_line_terminator c) s then Some s else None)"

fun space_plus :: "nat \<Rightarrow> string \<Rightarrow> string option" where
  "space_plus 0 s = None"
| "space_plus (Suc m) s =
     (if Suc m \<le> length s \<and> list_all is_space (take (Suc m) s)
      then (case dot_plus_end (drop (Suc m) s) of
              Some t \<Rightarrow> Some t
            | None \<Rightarrow> space_plus m s)
      else space_plus m s)"

fun hash_group :: "nat \<Rightarrow> string \<Rightarrow> (string \<times> string) option" where
  "hash_group 0 s = None"
| "hash_group (Suc k) s =
     (if Suc k \<le> length s \<and> list_all (\<lambda>c. c = CHR ''#'') (take (Suc k) s)
      then (case space_plus (length s - Suc k) (drop (Suc k) s) of
              Some t \<Rightarrow> Some (take (Suc k) s, t)
            | None \<Rightarrow> hash_group k s)
      else hash_group k s)"

definition headerMatch :: "string \<Rightarrow> (string \<times> string) option" where
  "headerMatch line = hash_group 6 line"

text \<open>
  The loop of \<^verbatim>\<open>parseSections\<close> over the lines, with the index of the line, the
  sections pushed so far and the section that is open.
\<close>

fun parse_lines ::
  "string list \<Rightarrow> nat \<Rightarrow> Section list \<Rightarrow> Section option \<Rightarrow> Section list \<times> Section option"
where
  "parse_lines [] i sections current = (sections, current)"
| "parse_lines (line # rest) i sections current =
     (case headerMatch line of
        Some (hashes, heading) \<Rightarrow>
          parse_lines rest (Suc i)
            (case current of
               Some s \<Rightarrow> sections @ [s\<lparr>endLine := int i - 1\<rparr>]
             | None \<Rightarrow> sections)
            (Some \<lparr>title = trim heading, level = length hashes,
                    Section.content = line @ [newline], startLine = int i, endLine = int i\<rparr>)
      | None \<Rightarrow>
          parse_lines rest (Suc i) sections
            (case current of
               Some s \<Rightarrow> Some (s\<lparr>Section.content := Section.content s @ line @ [newline]\<rparr>)
             | None \<Rightarrow> None))"

text \<open>The number of hashes a line starts with, and the headings of two descriptions.\<close>

definition hash_count :: "string \<Rightarrow> nat" where
  "hash_count line = length (takeWhile (\<lambda>c. c = CHR ''#'') line)"

text \<open>
  A heading as the specification words it: one to six hashes, at least one space, and
  trailing text that is not empty.
\<close>

definition spec_heading :: "string \<Rightarrow> bool" where
  "spec_heading line =
     (\<exists>k m txt. 1 \<le> k \<and> k \<le> 6 \<and> 1 \<le> m \<and> txt \<noteq> []
        \<and> line = replicate k (CHR ''#'') @ replicate m (CHR '' '') @ txt)"

text \<open>
  A heading as the regular expression reads it: one to six hashes, at least one
  character of white space, and trailing text that is not empty and holds no line
  terminator.
\<close>

definition atx_heading :: "string \<Rightarrow> bool" where
  "atx_heading line =
     (\<exists>k ws txt. 1 \<le> k \<and> k \<le> 6 \<and> ws \<noteq> [] \<and> list_all is_space ws \<and> txt \<noteq> []
        \<and> list_all (\<lambda>c. \<not> is_line_terminator c) txt
        \<and> line = replicate k (CHR ''#'') @ ws @ txt)"

definition parseSections :: "string \<Rightarrow> Section list" where
  "parseSections doc =
     (let lines = split doc newline;
          (sections, current) = parse_lines lines 0 [] None
      in case current of
           Some s \<Rightarrow> sections @ [s\<lparr>endLine := int (length lines) - 1\<rparr>]
         | None \<Rightarrow> sections)"

section \<open>Table of contents and section lookup\<close>

definition getTableOfContents :: "string \<Rightarrow> PaginationResult" where
  "getTableOfContents doc =
     (let sections = parseSections doc;
          toc = ''# Vendure Documentation - Table of Contents\<newline>\<newline>''
            @ ''Use the '' @ [CHR 0x60] @ ''section'' @ [CHR 0x60]
            @ '' parameter to retrieve specific sections.\<newline>\<newline>''
            @ ''## Available Sections\<newline>\<newline>'';
          toc = foldl (\<lambda>toc (i, s).
                  toc @ repeat ''  '' (level s - 1) @ show_nat (i + 1) @ ''. '' @ title s
                  @ [newline])
                toc (enumerate 0 sections);
          toc = toc @ ''\<newline>## Usage Examples\<newline>\<newline>''
            @ ''- Get specific section: '' @ [CHR 0x60] @ ''{ '' @ [CHR 0x22] @ ''type''
            @ [CHR 0x22] @ '': '' @ [CHR 0x22] @ ''standard'' @ [CHR 0x22] @ '', ''
            @ [CHR 0x22] @ ''section'' @ [CHR 0x22] @ '': '' @ [CHR 0x22] @ ''Core Concepts''
            @ [CHR 0x22] @ '' }'' @ [CHR 0x60] @ ''\<newline>''
            @ ''- Get page 1: '' @ [CHR 0x60] @ ''{ '' @ [CHR 0x22] @ ''type'' @ [CHR 0x22]
            @ '': '' @ [CHR 0x22] @ ''standard'' @ [CHR 0x22] @ '', '' @ [CHR 0x22] @ ''page''
            @ [CHR 0x22] @ '': 1, '' @ [CHR 0x22] @ ''pageSize'' @ [CHR 0x22] @ '': 5000 }''
            @ [CHR 0x60] @ ''\<newline>''
      in \<lparr>PaginationResult.content = toc,
          metadata = no_metadata\<lparr>totalSections := Some (length sections)\<rparr>\<rparr>)"

definition getSection :: "string \<Rightarrow> string \<Rightarrow> PaginationResult" where
  "getSection doc sectionTitle =
     (let sections = parseSections doc
      in case find (\<lambda>s. includes_str (toLowerCase (title s)) (toLowerCase sectionTitle))
                sections of
           None \<Rightarrow>
             \<lparr>PaginationResult.content =
                ''# Section Not Found\<newline>\<newline>Could not find section matching: ''
                @ [CHR 0x22] @ sectionTitle @ [CHR 0x22]
                @ ''\<newline>\<newline>## Available sections:\<newline>- ''
                @ join (map title sections) ''\<newline>- '',
              metadata = no_metadata\<lparr>totalSections := Some (length sections)\<rparr>\<rparr>
         | Some s \<Rightarrow>
             \<lparr>PaginationResult.content = Section.content s,
              metadata = no_metadata\<lparr>totalSections := Some (length sections),
                currentSection := Some (title s)\<rparr>\<rparr>)"

section \<open>Resolving a document: memory cache, network, disk cache, fallback\<close>

text \<open>
  The state the service reads and writes: its two cache fields, the clock, the remote
  server, the files of the cache directory and the project context. \<open>web\<close> gives the
  body of a response that is \<^verbatim>\<open>ok\<close>, and \<open>None\<close> where \<^verbatim>\<open>fetchFromWeb\<close> throws (a
  transport error or a status outside 2xx); \<open>requests\<close> records every request sent.
  A file of the cache directory either parses to a cached document or does not parse;
  a file that is absent cannot be read. \<open>can_write\<close> and \<open>can_unlink\<close> say whether
  writing and deleting a cache file succeed. \<open>projectPath\<close> is what
  \<^verbatim>\<open>getProjectContext()\<close> returns, a function of the repository that is not among the
  sources given: \<open>None\<close> where it throws. Each awaited operation takes some time, after
  which the clock reads later: \<open>web_delay\<close> and \<open>disk_delay\<close>.
\<close>

datatype CacheType = CacheLlms | CacheFull

datatype DocType = TypeFull | TypeStandard

datatype DiskFile = Unparsable | Stored CachedContent

record World =
  now :: int
  llmsTxtCache :: "CachedContent option"
  llmsFullTxtCache :: "CachedContent option"
  web :: "string \<Rightarrow> string option"
  requests :: "string list"
  files :: "string \<Rightarrow> DiskFile option"
  can_write :: bool
  can_unlink :: bool
  projectPath :: "string option"
  web_delay :: nat
  disk_delay :: nat

definition VENDURE_DOCS_BASE_URL :: string where
  "VENDURE_DOCS_BASE_URL = ''https://docs.vendure.io''"

definition CACHE_TTL_MS :: int where
  "CACHE_TTL_MS = 24 * 60 * 60 * 1000"

definition elapse :: "nat \<Rightarrow> World \<Rightarrow> World" where
  "elapse d w = w\<lparr>now := now w + int d\<rparr>"

definition fetchFromWeb :: "string \<Rightarrow> World \<Rightarrow> string option \<times> World" where
  "fetchFromWeb filename w =
     (let url = VENDURE_DOCS_BASE_URL @ ''/'' @ filename
      in (web w url, elapse (web_delay w) (w\<lparr>requests := requests w @ [url]\<rparr>)))"

definition isCacheValid :: "CachedContent \<Rightarrow> World \<Rightarrow> bool" where
  "isCacheValid cache w = (now w - timestamp cache < CACHE_TTL_MS)"

definition saveToDiskCache :: "string \<Rightarrow> CachedContent \<Rightarrow> World \<Rightarrow> World" where
  "saveToDiskCache filename cache w =
     elapse (disk_delay w)
       (if can_write w then w\<lparr>files := (files w)(filename @ ''.json'' \<mapsto> Stored cache)\<rparr>
        else w)"

definition loadFromDiskCache :: "string \<Rightarrow> World \<Rightarrow> CachedContent option \<times> World" where
  "loadFromDiskCache filename w =
     (let cacheFile = filename @ ''.json'';
          w1 = elapse (disk_delay w) w
      in case files w1 cacheFile of
           None \<Rightarrow> (None, w1)
         | Some Unparsable \<Rightarrow> (None, w1)
         | Some (Stored cache) \<Rightarrow>
             if isCacheValid cache w1 then (Some cache, w1)
             else (None,
                   elapse (disk_delay w1)
                     (if can_unlink w1 then w1\<lparr>files := (files w1)(cacheFile := None)\<rparr>
                      else w1)))"

definition getFallbackLlmsTxt :: string where
  "getFallbackLlmsTxt =
     ''# Vendure E-commerce Framework\<newline>''
     @ ''\<newline>''
     @ ''Vendure is a modern, headless e-commerce framework built with TypeScript and Node.js.\<newline>''
     @ ''\<newline>''
     @ ''## Core Concepts\<newline>''
     @ ''\<newline>''
     @ ''### Project Structure\<newline>''
     @ ''- **Entities**: Custom database entities (*.entity.ts)\<newline>''
     @ ''- **Services**: Business logic services (*.service.ts)\<newline>''
     @ ''- **Plugins**: Modular extensions (*.plugin.ts)\<newline>''
     @ ''- **Migrations**: Database schema changes\<newline>''
     @ ''- **Configuration**: vendure-config.ts file\<newline>''
     @ ''\<newline>''
     @ ''### CLI Commands\<newline>''
     @ ''- **vendure add**: Add plugins, entities, services, and other components\<newline>''
     @ ''- **vendure migrate**: Run database migrations\<newline>''
     @ ''- **vendure init**: Initialize new Vendure project\<newline>''
     @ ''\<newline>''
     @ ''### Plugin System\<newline>''
     @ ''- Plugins extend Vendure functionality\<newline>''
     @ ''- Can add new GraphQL schema, services, entities\<newline>''
     @ ''- Support for payment providers, shipping methods, custom fields\<newline>''
     @ ''\<newline>''
     @ ''### Database Support\<newline>''
     @ ''- PostgreSQL (recommended)\<newline>''
     @ ''- MySQL/MariaDB\<newline>''
     @ ''- SQLite (development)\<newline>''
     @ ''\<newline>''
     @ ''## Documentation Links\<newline>''
     @ ''\<newline>''
     @ ''- Main Documentation: https://docs.vendure.io/\<newline>''
     @ ''- Plugin Development: https://docs.vendure.io/guides/developer-guide/plugins/\<newline>''
     @ ''- CLI Guide: https://docs.vendure.io/guides/developer-guide/cli/\<newline>''
     @ ''- API Reference: https://docs.vendure.io/reference/\<newline>''
     @ ''- GraphQL API: https://docs.vendure.io/graphql-api/\<newline>''
     @ ''- Configuration: https://docs.vendure.io/reference/vendure-config/\<newline>''
     @ ''\<newline>''
     @ ''## Best Practices\<newline>''
     @ ''\<newline>''
     @ ''- Use TypeScript for type safety\<newline>''
     @ ''- Follow plugin architecture for extensions\<newline>''
     @ ''- Implement proper error handling\<newline>''
     @ ''- Use database transactions for data consistency\<newline>''
     @ ''- Follow security best practices for authentication\<newline>''
     @ ''\<newline>''
     @ ''For specific implementation details, refer to the comprehensive documentation at docs.vendure.io\<newline>''
     @ ''\<newline>''
     @ ''Note: This is fallback content. Official documentation may be temporarily unavailable.''"

definition getFallbackLlmsFullTxt :: string where
  "getFallbackLlmsFullTxt =
     ''# Vendure E-commerce Framework - Complete Reference\<newline>''
     @ ''\<newline>''
     @ ''Vendure is a modern, headless GraphQL-first e-commerce framework built with TypeScript and Node.js.\<newline>''
     @ ''\<newline>''
     @ ''## Architecture Overview\<newline>''
     @ ''\<newline>''
     @ ''### Core Components\<newline>''
     @ ''- **Admin UI**: Angular-based administration interface\<newline>''
     @ ''- **Shop API**: Customer-facing GraphQL API\<newline>''
     @ ''- **Admin API**: Administration GraphQL API\<newline>''
     @ ''- **Worker**: Background job processing\<newline>''
     @ ''- **Plugin System**: Extensible architecture\<newline>''
     @ ''\<newline>''
     @ ''### Technology Stack\<newline>''
     @ ''- TypeScript/Node.js backend\<newline>''
     @ ''- GraphQL API (using Apollo Server)\<newline>''
     @ ''- Database: PostgreSQL, MySQL, or SQLite\<newline>''
     @ ''- ORM: TypeORM for database operations\<newline>''
     @ ''- Authentication: JWT-based sessions\<newline>''
     @ ''\<newline>''
     @ ''## CLI Commands Reference\<newline>''
     @ ''\<newline>''
     @ ''### vendure add\<newline>''
     @ ''Add components to your Vendure project:\<newline>''
     @ ''- '' @ [CHR 0x60] @ ''vendure add plugin'' @ [CHR 0x60] @ '': Add a new plugin\<newline>''
     @ ''- '' @ [CHR 0x60] @ ''vendure add entity'' @ [CHR 0x60] @ '': Add a custom entity\<newline>''
     @ ''- '' @ [CHR 0x60] @ ''vendure add service'' @ [CHR 0x60] @ '': Add a new service\<newline>''
     @ ''- '' @ [CHR 0x60] @ ''vendure add job-queue'' @ [CHR 0x60] @ '': Add job queue functionality\<newline>''
     @ ''- '' @ [CHR 0x60] @ ''vendure add ui-extension'' @ [CHR 0x60] @ '': Add Admin UI extensions\<newline>''
     @ ''\<newline>''
     @ ''### vendure migrate\<newline>''
     @ ''Database migration management:\<newline>''
     @ ''- '' @ [CHR 0x60] @ ''vendure migrate'' @ [CHR 0x60] @ '': Run pending migrations\<newline>''
     @ ''- '' @ [CHR 0x60] @ ''vendure migrate:revert'' @ [CHR 0x60] @ '': Revert last migration\<newline>''
     @ ''- '' @ [CHR 0x60] @ ''vendure migrate:generate'' @ [CHR 0x60] @ '': Generate new migration\<newline>''
     @ ''\<newline>''
     @ ''## Documentation Resources\<newline>''
     @ ''\<newline>''
     @ ''### Primary Resources\<newline>''
     @ ''- Official Documentation: https://docs.vendure.io/\<newline>''
     @ ''- Getting Started: https://docs.vendure.io/guides/getting-started/\<newline>''
     @ ''- Developer Guide: https://docs.vendure.io/guides/developer-guide/\<newline>''
     @ ''- Plugin Development: https://docs.vendure.io/guides/developer-guide/plugins/\<newline>''
     @ ''- CLI Reference: https://docs.vendure.io/guides/developer-guide/cli/\<newline>''
     @ ''\<newline>''
     @ ''### API Documentation\<newline>''
     @ ''- GraphQL Playground: http://localhost:3000/admin-api (when running)\<newline>''
     @ ''- Shop API Schema: https://docs.vendure.io/graphql-api/shop/\<newline>''
     @ ''- Admin API Schema: https://docs.vendure.io/graphql-api/admin/\<newline>''
     @ ''- TypeScript API: https://docs.vendure.io/reference/\<newline>''
     @ ''\<newline>''
     @ ''### Community Resources\<newline>''
     @ ''- GitHub Repository: https://github.com/vendure-ecommerce/vendure\<newline>''
     @ ''- Discord Community: https://vendure.io/community/\<newline>''
     @ ''- YouTube Channel: Vendure E-commerce\<newline>''
     @ ''- Blog: https://vendure.io/blog/\<newline>''
     @ ''\<newline>''
     @ ''Note: This is fallback content. For the most comprehensive and up-to-date documentation, the service attempts to fetch from docs.vendure.io. If you're seeing this message, the official documentation may be temporarily unavailable.''"

definition getFallbackContent :: "string \<Rightarrow> string" where
  "getFallbackContent filename =
     (if filename = ''llms.txt'' then getFallbackLlmsTxt
      else if filename = ''llms-full.txt'' then getFallbackLlmsFullTxt
      else ''# '' @ filename
        @ ''\<newline>\<newline>Fallback content - official documentation temporarily unavailable.'')"

definition enhanceWithProjectContext :: "string \<Rightarrow> World \<Rightarrow> string" where
  "enhanceWithProjectContext doc w =
     (case projectPath w of
        Some path \<Rightarrow>
          (''\<newline>''
        @ ''# Current Project Context\<newline>''
        @ ''Project Path: '' @ path
        @ ''\<newline>''
        @ ''\<newline>''
        @ ''## Available MCP Tools\<newline>''
        @ ''- vendure_add: Add plugins, entities, services to your project\<newline>''
        @ ''- vendure_migrate: Run database migrations\<newline>''
        @ ''- vendure_analyse: Analyze project structure (tasks: list_plugins, analyze_project_structure, check_vendure_installation, get_database_type)\<newline>''
        @ ''\<newline>''
        @ ''---\<newline>''
        @ ''\<newline>'')
          @ doc
      | None \<Rightarrow> doc)"

definition get_cache :: "CacheType \<Rightarrow> World \<Rightarrow> CachedContent option" where
  "get_cache cacheType w =
     (if cacheType = CacheLlms then llmsTxtCache w else llmsFullTxtCache w)"

definition set_cache :: "CacheType \<Rightarrow> CachedContent \<Rightarrow> World \<Rightarrow> World" where
  "set_cache cacheType cache w =
     (if cacheType = CacheLlms then w\<lparr>llmsTxtCache := Some cache\<rparr>
      else w\<lparr>llmsFullTxtCache := Some cache\<rparr>)"

definition getDocumentContent :: "string \<Rightarrow> CacheType \<Rightarrow> World \<Rightarrow> string \<times> World" where
  "getDocumentContent filename cacheType w =
     (let cache = get_cache cacheType w
      in case (case cache of
                 Some c \<Rightarrow> if isCacheValid c w then Some c else None
               | None \<Rightarrow> None) of
           Some c \<Rightarrow> (CachedContent.content c, w)
         | None \<Rightarrow>
             (case fetchFromWeb filename w of
                (Some body, w1) \<Rightarrow>
                  (let contentToCache =
                         (if cacheType = CacheFull then enhanceWithProjectContext body w1
                          else body);
                       cachedContent =
                         \<lparr>CachedContent.content = contentToCache, timestamp = now w1\<rparr>;
                       w2 = set_cache cacheType cachedContent w1;
                       w3 = saveToDiskCache filename cachedContent w2
                   in (contentToCache, w3))
              | (None, w1) \<Rightarrow>
                  (case loadFromDiskCache filename w1 of
                     (Some diskCached, w2) \<Rightarrow>
                       (CachedContent.content diskCached, set_cache cacheType diskCached w2)
                   | (None, w2) \<Rightarrow>
                       (let fallbackContent = getFallbackContent filename
                        in (if cacheType = CacheFull
                            then enhanceWithProjectContext fallbackContent w2
                            else fallbackContent,
                            w2)))))"

definition getLlmsTxt :: "World \<Rightarrow> string \<times> World" where
  "getLlmsTxt w = getDocumentContent ''llms.txt'' CacheLlms w"

definition getLlmsFullTxt :: "World \<Rightarrow> string \<times> World" where
  "getLlmsFullTxt w = getDocumentContent ''llms-full.txt'' CacheFull w"

section \<open>The dispatch on the caller's options\<close>

text \<open>
  The options of the caller, \<^verbatim>\<open>section\<close>, \<^verbatim>\<open>page\<close> and \<^verbatim>\<open>pageSize\<close>, each of which
  may be undefined.
\<close>

record Options =
  section_opt :: "string option"
  page_opt :: "int option"
  pageSize_opt :: "int option"

text \<open>
  What \<^verbatim>\<open>!x\<close>, \<^verbatim>\<open>if (x)\<close> and \<^verbatim>\<open>x || d\<close> test: a string that is defined and not empty,
  a number that is defined and not zero.
\<close>

fun truthy_string :: "string option \<Rightarrow> bool" where
  "truthy_string None = False"
| "truthy_string (Some s) = (s \<noteq> [])"

fun truthy_number :: "int option \<Rightarrow> bool" where
  "truthy_number None = False"
| "truthy_number (Some n) = (n \<noteq> 0)"

definition getPaginatedDocs ::
  "DocType \<Rightarrow> Options option \<Rightarrow> World \<Rightarrow> PaginationResult \<times> World"
where
  "getPaginatedDocs doc_type options w =
     (let (fullContent, w') =
            (if doc_type = TypeFull then getLlmsFullTxt w else getLlmsTxt w);
          sect = (case options of Some opts \<Rightarrow> section_opt opts | None \<Rightarrow> None);
          pg = (case options of Some opts \<Rightarrow> page_opt opts | None \<Rightarrow> None);
          psz = (case options of Some opts \<Rightarrow> pageSize_opt opts | None \<Rightarrow> None)
      in if \<not> truthy_string sect \<and> \<not> truthy_number pg
         then (getTableOfContents fullContent, w')
         else
           (case (if truthy_string sect then sect else None) of
              Some s \<Rightarrow> (getSection fullContent s, w')
            | None \<Rightarrow>
                (case pg of
                   Some p \<Rightarrow>
                     (getPage fullContent p
                        (case (if truthy_number psz then psz else None) of
                           Some n \<Rightarrow> n
                         | None \<Rightarrow> 5000),
                      w')
                 | None \<Rightarrow>
                     (\<lparr>PaginationResult.content = fullContent, metadata = no_metadata\<rparr>,
                      w'))))"

section \<open>The scenario of the specification\<close>

text \<open>
  The document of the concrete scenarios, and a state of the service whose memory cache
  holds it, fresh, as the standard document.
\<close>

definition scenario_doc :: string where
  "scenario_doc = ''# A\<newline>x\<newline>## B\<newline>y\<newline>''"

definition scenario_world :: World where
  "scenario_world =
     \<lparr>now = 1000,
      llmsTxtCache = Some \<lparr>CachedContent.content = scenario_doc, timestamp = 1000\<rparr>,
      llmsFullTxtCache = None,
      web = (\<lambda>url. None),
      requests = [],
      files = (\<lambda>name. None),
      can_write = True,
      can_unlink = True,
      projectPath = None,
      web_delay = 0,
      disk_delay = 0\<rparr>"

text \<open>
  A state with nothing in the memory cache, in which the server answers the request for
  the standard document after five milliseconds.
\<close>

definition fetch_world :: World where
  "fetch_world =
     scenario_world\<lparr>llmsTxtCache := None,
       web := (\<lambda>url. if url = ''https://docs.vendure.io/llms.txt'' then Some scenario_doc
                     else None),
       web_delay := 5\<rparr>"

text \<open>
  A state with nothing in the memory cache, in which the server does not answer and the
  cache directory holds a copy of the standard document that is older than a day.
\<close>

definition stale_disk_world :: World where
  "stale_disk_world =
     scenario_world\<lparr>now := 90000000, llmsTxtCache := None,
       files := (\<lambda>name. if name = ''llms.txt.json''
                         then Some (Stored \<lparr>CachedContent.content = scenario_doc,
                                            timestamp = 1000\<rparr>)
                         else None)\<rparr>"

section \<open>Numeric pagination: joining the pages gives the document back\<close>

lemma split_not_Nil: "split s c \<noteq> []"
  by (induction s) auto

lemma join_Cons: "xs \<noteq> [] \<Longrightarrow> join (x # xs) sep = x @ sep @ join xs sep"
  by (cases xs) auto

lemma join_split: "join (split s c) [c] = s"
proof (induction s)
  case Nil
  show ?case by simp
next
  case (Cons a s)
  obtain l ls where sp: "split s c = l # ls"
    using split_not_Nil [of s c] by (cases "split s c") auto
  show ?case
  proof (cases "a = c")
    case True
    then show ?thesis using Cons split_not_Nil [of s c] by (simp add: join_Cons)
  next
    case False
    then show ?thesis using Cons sp by (cases ls) auto
  qed
qed

lemma join_append:
  "xs \<noteq> [] \<Longrightarrow> ys \<noteq> [] \<Longrightarrow> join (xs @ ys) sep = join xs sep @ sep @ join ys sep"
proof (induction xs)
  case Nil
  then show ?case by simp
next
  case (Cons x xs)
  show ?case
  proof (cases "xs = []")
    case True
    then show ?thesis using Cons.prems by (simp add: join_Cons)
  next
    case False
    then show ?thesis using Cons by (simp add: join_Cons)
  qed
qed

lemma slice_page:
  assumes "0 \<le> a" "0 \<le> k"
  shows "slice xs a (min (a + k) (int (length xs))) = take (nat k) (drop (nat a) xs)"
proof (cases "a \<le> int (length xs)")
  case True
  then show ?thesis using assms
    by (auto simp: slice_def Let_def min_def nat_diff_distrib' nat_add_distrib)
next
  case False
  then show ?thesis using assms by (auto simp: slice_def Let_def min_def)
qed


lemma pages_join:
  assumes "0 < ps" "k * ps < length xs"
  shows "join (map (\<lambda>p. join (take ps (drop ((p - 1) * ps) xs)) sep) [1..<Suc (Suc k)]) sep
         = join (take (Suc k * ps) xs) sep"
  using assms(2)
proof (induction k)
  case 0
  then show ?case by simp
next
  case (Suc k)
  let ?f = "\<lambda>p. join (take ps (drop ((p - 1) * ps) xs)) sep"
  have lt: "k * ps < length xs" using Suc.prems by simp
  have ne1: "take (Suc k * ps) xs \<noteq> []" using assms(1) Suc.prems by auto
  have ne2: "take ps (drop (Suc k * ps) xs) \<noteq> []" using assms(1) Suc.prems by auto
  have "join (map ?f [1..<Suc (Suc (Suc k))]) sep
        = join (map ?f [1..<Suc (Suc k)] @ [?f (Suc (Suc k))]) sep"
    by simp
  also have "\<dots> = join (map ?f [1..<Suc (Suc k)]) sep @ sep @ ?f (Suc (Suc k))"
    by (subst join_append) simp_all
  also have "\<dots> = join (take (Suc k * ps) xs) sep @ sep @ join (take ps (drop (Suc k * ps) xs)) sep"
    using Suc.IH [OF lt] by simp
  also have "\<dots> = join (take (Suc k * ps) xs @ take ps (drop (Suc k * ps) xs)) sep"
    using join_append [OF ne1 ne2] by simp
  also have "take (Suc k * ps) xs @ take ps (drop (Suc k * ps) xs) = take (Suc k * ps + ps) xs"
    by (rule take_add [symmetric])
  also have "Suc k * ps + ps = Suc (Suc k) * ps"
    by simp
  finally show ?case .
qed

lemma ceil_pages:
  assumes "0 < ps" "0 < len"
  shows "\<exists>k. \<lceil>real len / real_of_int (int ps)\<rceil> = int (Suc k) \<and> k * ps < len \<and> len \<le> Suc k * ps"
proof -
  have e: "\<lceil>real len / real_of_int (int ps)\<rceil> = - (- int len div int ps)"
    using ceiling_divide_eq_div [of "int len" "int ps"] by simp
  define c where "c = - (- int len div int ps)"
  define q where "q = (- int len) div int ps"
  define r where "r = (- int len) mod int ps"
  have qr: "q * int ps + r = - int len"
    unfolding q_def r_def by simp
  have r0: "0 \<le> r" and r1: "r < int ps"
    using assms(1) by (simp_all add: r_def)
  have cq: "c = - q" by (simp add: c_def q_def)
  have up: "int len \<le> c * int ps"
    using qr r0 by (simp add: cq)
  have lo: "(c - 1) * int ps < int len"
    using qr r1 by (simp add: cq algebra_simps)
  have cpos: "1 \<le> c"
  proof (rule ccontr)
    assume "\<not> 1 \<le> c"
    then have "c \<le> 0" by simp
    then have "c * int ps \<le> 0" using assms(1) by (simp add: mult_le_0_iff)
    then show False using up assms(2) by simp
  qed
  then obtain k where k: "c = int (Suc k)"
    by (metis Suc_pred' nat_0_le zero_less_nat_eq int_nat_eq less_le_trans zero_less_one order_trans zero_le_one)
  have "int (k * ps) < int len" using lo k by (simp add: algebra_simps)
  then have a: "k * ps < len" by (simp only: of_nat_less_iff)
  have "int len \<le> int (Suc k * ps)" using up k by (simp add: algebra_simps)
  then have b: "len \<le> Suc k * ps" by (simp only: of_nat_le_iff)
  have "\<lceil>real len / real_of_int (int ps)\<rceil> = int (Suc k)"
    using e k c_def by simp
  then show ?thesis using a b by blast
qed


lemma getPage_total:
  assumes "0 < ps" "split doc newline = xs" "\<lceil>real (length xs) / real_of_int (int ps)\<rceil> = int (Suc k)"
  shows "totalPages (metadata (getPage doc page (int ps))) = Some (Finite (int (Suc k)))"
  using assms by (simp add: getPage_def Let_def ceil_div_def no_metadata_def)

lemma getPage_valid:
  assumes "0 < ps" "split doc newline = xs" "\<lceil>real (length xs) / real_of_int (int ps)\<rceil> = int (Suc k)"
    "1 \<le> p" "p \<le> Suc k"
  shows "PaginationResult.content (getPage doc (int p) (int ps))
         = join (take ps (drop ((p - 1) * ps) xs)) [newline]"
proof -
  have s: "slice xs (int ((p - 1) * ps)) (min (int ((p - 1) * ps) + int ps) (int (length xs)))
           = take ps (drop ((p - 1) * ps) xs)"
  proof -
    have "slice xs (int ((p - 1) * ps)) (min (int ((p - 1) * ps) + int ps) (int (length xs)))
          = take (nat (int ps)) (drop (nat (int ((p - 1) * ps))) xs)"
      by (rule slice_page) simp_all
    then show ?thesis by (simp only: nat_int)
  qed
  have m: "(int p - 1) * int ps = int ((p - 1) * ps)"
    using assms(4) by (simp add: of_nat_diff)
  show ?thesis
    using assms s by (simp add: getPage_def Let_def ceil_div_def m del: of_nat_mult)
qed

text \<open>
  Claim C1. For every document and every page size of at least one line, the paginator
  reports the same finite number \<open>n\<close> of pages, at least one, whatever page is asked for,
  and the contents of the pages 1 to \<open>n\<close>, joined in order with newlines, are the
  document.
\<close>

theorem getPage_roundtrip:
  assumes "1 \<le> psize"
  shows "\<exists>n. (\<forall>page. totalPages (metadata (getPage doc page psize)) = Some (Finite (int n)))
           \<and> 1 \<le> n
           \<and> join (map (\<lambda>p. PaginationResult.content (getPage doc (int p) psize)) [1..<Suc n])
                 [newline] = doc"
proof -
  define ps where "ps = nat psize"
  define xs where "xs = split doc newline"
  have ps: "0 < ps" "psize = int ps" using assms by (simp_all add: ps_def)
  have len: "0 < length xs" using split_not_Nil [of doc newline] by (simp add: xs_def)
  obtain k where k: "\<lceil>real (length xs) / real_of_int (int ps)\<rceil> = int (Suc k)"
      "k * ps < length xs" "length xs \<le> Suc k * ps"
    using ceil_pages [OF ps(1) len] by blast
  have sp: "split doc newline = xs" by (simp add: xs_def)
  have tot: "\<forall>page. totalPages (metadata (getPage doc page psize)) = Some (Finite (int (Suc k)))"
    using getPage_total [OF ps(1) sp k(1)] ps(2) by simp
  have eq: "map (\<lambda>p. PaginationResult.content (getPage doc (int p) psize)) [1..<Suc (Suc k)]
        = map (\<lambda>p. join (take ps (drop ((p - 1) * ps) xs)) [newline]) [1..<Suc (Suc k)]"
    using getPage_valid [OF ps(1) sp k(1)] ps(2) by (intro map_cong) auto
  have "join (map (\<lambda>p. PaginationResult.content (getPage doc (int p) psize)) [1..<Suc (Suc k)]) [newline]
        = join (map (\<lambda>p. join (take ps (drop ((p - 1) * ps) xs)) [newline]) [1..<Suc (Suc k)]) [newline]"
    by (simp only: eq)
  also have "\<dots> = join (take (Suc k * ps) xs) [newline]"
    by (rule pages_join [OF ps(1) k(2)])
  also have "take (Suc k * ps) xs = xs" using k(3) by simp
  also have "join xs [newline] = doc" by (simp add: xs_def join_split)
  finally have "join (map (\<lambda>p. PaginationResult.content (getPage doc (int p) psize)) [1..<Suc (Suc k)]) [newline] = doc" .
  then show ?thesis using tot by (intro exI [of _ "Suc k"]) simp
qed

theorem getPage_roundtrip_witness:
  "(1::int) \<le> 2 \<and>
   join (map (\<lambda>p. PaginationResult.content (getPage scenario_doc (int p) 2))
     [1..<Suc 3]) [newline] = scenario_doc"
proof -
  let ?doc = scenario_doc
  obtain n where n: "\<forall>page. totalPages (metadata (getPage ?doc page 2)) = Some (Finite (int n))"
    and j: "join (map (\<lambda>p. PaginationResult.content (getPage ?doc (int p) 2)) [1..<Suc n]) [newline] = ?doc"
    using getPage_roundtrip [of 2 ?doc] by auto
  have "totalPages (metadata (getPage ?doc 1 2)) = Some (Finite 3)"
    by code_simp
  then have "n = 3" using n by simp
  then show ?thesis using j by simp
qed

section \<open>The concrete scenarios of numeric pagination\<close>

text \<open>
  Claim C2, as the specification states it, at its own input: four pages. The split of
  the document at its newlines ends with an empty line, which is a fifth page.
\<close>

theorem scenario_pages_counterexample:
  "\<not> (totalPages (metadata (getPage scenario_doc 1 1)) = Some (Finite 4)
      \<and> PaginationResult.content (getPage scenario_doc 1 1) = ''# A''
      \<and> PaginationResult.content (getPage scenario_doc 2 1) = ''x''
      \<and> PaginationResult.content (getPage scenario_doc 3 1) = ''## B''
      \<and> PaginationResult.content (getPage scenario_doc 4 1) = ''y'')"
  by code_simp

text \<open>
  Claim C2, amended. With one line a page the document of the scenario has five pages:
  the pages 1 to 4 are the four lines, and page 5 is a valid page whose content is
  empty.
\<close>

theorem scenario_pages:
  "totalPages (metadata (getPage scenario_doc 1 1)) = Some (Finite 5)
   \<and> PaginationResult.content (getPage scenario_doc 1 1) = ''# A''
   \<and> PaginationResult.content (getPage scenario_doc 2 1) = ''x''
   \<and> PaginationResult.content (getPage scenario_doc 3 1) = ''## B''
   \<and> PaginationResult.content (getPage scenario_doc 4 1) = ''y''
   \<and> PaginationResult.content (getPage scenario_doc 5 1) = []
   \<and> currentPage (metadata (getPage scenario_doc 5 1)) = Some 5"
  by code_simp

text \<open>
  Claim C3, as the specification states it, at page 5: the page is in range, so the
  result is no message, it has a current page, and the total is not 4.
\<close>

theorem scenario_invalid_page_counterexample:
  "\<not> (totalPages (metadata (getPage scenario_doc 5 1)) = Some (Finite 4)
      \<and> Metadata.pageSize (metadata (getPage scenario_doc 5 1)) = Some 1
      \<and> currentPage (metadata (getPage scenario_doc 5 1)) = None)"
  by code_simp

text \<open>
  Claim C3, amended. On the document of the scenario, which has five pages of one line,
  the paginator answers page 0 and page 6 with the message of an invalid page, the total
  of 5 pages and the page size 1 in the metadata, and no current page. A request for
  page 6 of the cached standard document gets that answer; a request for page 0 gets the
  table of contents, page 0 counting as no page.
\<close>

theorem scenario_invalid_page:
  "getPage scenario_doc 0 1 =
     \<lparr>PaginationResult.content =
        ''# Invalid Page\<newline>\<newline>Page 0 is out of range. Total pages: 5'',
      metadata = \<lparr>totalSections = None, currentSection = None,
        totalPages = Some (Finite 5), currentPage = None, pageSize = Some 1\<rparr>\<rparr>
   \<and> getPage scenario_doc 6 1 =
     \<lparr>PaginationResult.content =
        ''# Invalid Page\<newline>\<newline>Page 6 is out of range. Total pages: 5'',
      metadata = \<lparr>totalSections = None, currentSection = None,
        totalPages = Some (Finite 5), currentPage = None, pageSize = Some 1\<rparr>\<rparr>
   \<and> fst (getPaginatedDocs TypeStandard
         (Some \<lparr>section_opt = None, page_opt = Some 6, pageSize_opt = Some 1\<rparr>)
         scenario_world)
     = getPage scenario_doc 6 1
   \<and> fst (getPaginatedDocs TypeStandard
         (Some \<lparr>section_opt = None, page_opt = Some 0, pageSize_opt = Some 1\<rparr>)
         scenario_world)
     = getTableOfContents scenario_doc"
  by code_simp

section \<open>The concrete scenario of section lookup\<close>

text \<open>
  Claim C4, as the specification states it, at its own input: the body of the section
  is not the two lines alone.
\<close>

theorem scenario_section_counterexample:
  "\<not> (PaginationResult.content (getSection scenario_doc ''b'') = ''## B\<newline>y\<newline>''
      \<and> currentSection (metadata (getSection scenario_doc ''b'')) = Some ''B'')"
  by code_simp

text \<open>
  Claim C4, amended. The query \<open>b\<close> matches the section titled \<open>B\<close>, the current
  section of the metadata is that title, and the body is the heading line, the line
  \<open>y\<close> and the empty last line of the document, each followed by a newline.
\<close>

theorem scenario_section:
  "getSection scenario_doc ''b'' =
     \<lparr>PaginationResult.content = ''## B\<newline>y\<newline>\<newline>'',
      metadata = \<lparr>totalSections = Some 2, currentSection = Some ''B'', totalPages = None,
        currentPage = None, pageSize = None\<rparr>\<rparr>"
  by code_simp

section \<open>Which lines open a section\<close>

lemma space_plus_sound:
  "space_plus m s = Some t \<Longrightarrow>
   \<exists>ws. ws \<noteq> [] \<and> list_all is_space ws \<and> s = ws @ t \<and> t \<noteq> []
        \<and> list_all (\<lambda>c. \<not> is_line_terminator c) t"
proof (induction m)
  case 0
  then show ?case by simp
next
  case (Suc m)
  show ?case
  proof (cases "Suc m \<le> length s \<and> list_all is_space (take (Suc m) s)
                \<and> dot_plus_end (drop (Suc m) s) \<noteq> None")
    case True
    then have t: "t = drop (Suc m) s" "t \<noteq> []" "list_all (\<lambda>c. \<not> is_line_terminator c) t"
      using Suc.prems by (auto simp: dot_plus_end_def split: if_splits)
    have "take (Suc m) s \<noteq> []" using True by auto
    moreover have "s = take (Suc m) s @ t" using t(1) by simp
    ultimately show ?thesis using True t by blast
  next
    case False
    then have "space_plus m s = Some t" using Suc.prems by (auto split: option.splits if_splits)
    then show ?thesis by (rule Suc.IH)
  qed
qed

lemma space_plus_complete:
  assumes "ws \<noteq> []" "list_all is_space ws" "t \<noteq> []" "list_all (\<lambda>c. \<not> is_line_terminator c) t"
  shows "length ws \<le> m \<Longrightarrow> space_plus m (ws @ t) \<noteq> None"
proof (induction m)
  case 0
  then show ?case using assms(1) by simp
next
  case (Suc m)
  show ?case
  proof (cases "length ws = Suc m")
    case True
    then have "dot_plus_end (drop (Suc m) (ws @ t)) = Some t"
      using assms by (simp add: dot_plus_end_def)
    then show ?thesis using True assms(2) by simp
  next
    case False
    then have "space_plus m (ws @ t) \<noteq> None" using Suc by simp
    then show ?thesis by (auto split: option.splits)
  qed
qed

lemma hash_group_sound:
  "hash_group k s = Some (h, t) \<Longrightarrow>
   \<exists>i ws. 1 \<le> i \<and> i \<le> k \<and> h = replicate i (CHR ''#'') \<and> ws \<noteq> [] \<and> list_all is_space ws
      \<and> t \<noteq> [] \<and> list_all (\<lambda>c. \<not> is_line_terminator c) t \<and> s = h @ ws @ t"
proof (induction k)
  case 0
  then show ?case by simp
next
  case (Suc k)
  show ?case
  proof (cases "Suc k \<le> length s \<and> list_all (\<lambda>c. c = CHR ''#'') (take (Suc k) s)
                \<and> space_plus (length s - Suc k) (drop (Suc k) s) \<noteq> None")
    case True
    then have h: "h = take (Suc k) s" and sp: "space_plus (length s - Suc k) (drop (Suc k) s) = Some t"
      using Suc.prems by auto
    obtain ws where ws: "ws \<noteq> []" "list_all is_space ws" "drop (Suc k) s = ws @ t" "t \<noteq> []"
        "list_all (\<lambda>c. \<not> is_line_terminator c) t"
      using space_plus_sound [OF sp] by blast
    have "take (Suc k) s = replicate (length (take (Suc k) s)) (CHR ''#'')"
      using True by (intro replicate_length_same [symmetric]) (simp add: list_all_iff)
    moreover have "length (take (Suc k) s) = Suc k" using True by simp
    ultimately have hr: "h = replicate (Suc k) (CHR ''#'')" using h by (simp only:)
    have "s = h @ ws @ t" using h ws(3) append_take_drop_id [of "Suc k" s] by simp
    then show ?thesis using hr ws by (intro exI [of _ "Suc k"] exI [of _ ws]) simp
  next
    case False
    then have "hash_group k s = Some (h, t)" using Suc.prems by (auto split: option.splits if_splits)
    then obtain i ws where "1 \<le> i \<and> i \<le> k \<and> h = replicate i (CHR ''#'') \<and> ws \<noteq> [] \<and> list_all is_space ws
      \<and> t \<noteq> [] \<and> list_all (\<lambda>c. \<not> is_line_terminator c) t \<and> s = h @ ws @ t"
      using Suc.IH by blast
    then show ?thesis by (intro exI [of _ i] exI [of _ ws]) simp
  qed
qed

lemma space_not_hash: "is_space c \<Longrightarrow> c \<noteq> CHR ''#''"
  by (auto simp: is_space_def)

lemma hash_group_complete:
  assumes "1 \<le> i" "ws \<noteq> []" "list_all is_space ws" "t \<noteq> []" "list_all (\<lambda>c. \<not> is_line_terminator c) t"
  shows "i \<le> k \<Longrightarrow> hash_group k (replicate i (CHR ''#'') @ ws @ t) \<noteq> None"
proof (induction k)
  case 0
  then show ?case using assms(1) by simp
next
  case (Suc k)
  let ?s = "replicate i (CHR ''#'') @ ws @ t"
  show ?case
  proof (cases "i = Suc k")
    case True
    have "space_plus (length ?s - Suc k) (drop (Suc k) ?s) \<noteq> None"
      using True space_plus_complete [OF assms(2-5), of "length ?s - Suc k"] by simp
    then show ?thesis using True by (auto simp: list_all_iff)
  next
    case False
    then have le: "i \<le> k" using Suc.prems by simp
    obtain c cs where ws: "ws = c # cs" using assms(2) by (cases ws) auto
    have c: "c \<noteq> CHR ''#''" using assms(3) ws space_not_hash by simp
    have "i < length (take (Suc k) ?s)" using le by (simp add: ws)
    moreover have "take (Suc k) ?s ! i = c" using le by (simp add: ws nth_append)
    ultimately have "c \<in> set (take (Suc k) ?s)" by (metis nth_mem)
    then have "\<not> (Suc k \<le> length ?s \<and> list_all (\<lambda>c. c = CHR ''#'') (take (Suc k) ?s))"
      using c by (auto simp: list_all_iff)
    then have "hash_group (Suc k) ?s = hash_group k ?s"
      by (simp only: hash_group.simps if_False)
    then show ?thesis using Suc.IH [OF le] by metis
  qed
qed

lemma headerMatch_iff: "(headerMatch line \<noteq> None) = atx_heading line"
proof
  assume "headerMatch line \<noteq> None"
  then obtain h t where "hash_group 6 line = Some (h, t)" by (auto simp: headerMatch_def)
  from hash_group_sound [OF this] show "atx_heading line"
    unfolding atx_heading_def by blast
next
  assume "atx_heading line"
  then obtain k ws tx where "1 \<le> k" "k \<le> 6" "ws \<noteq> []" "list_all is_space ws" "tx \<noteq> []"
    "list_all (\<lambda>c. \<not> is_line_terminator c) tx" "line = replicate k (CHR ''#'') @ ws @ tx"
    unfolding atx_heading_def by blast
  then show "headerMatch line \<noteq> None"
    using hash_group_complete [of k ws tx 6] by (simp add: headerMatch_def)
qed

lemma trim_space_prefix: "list_all is_space ws \<Longrightarrow> trim (ws @ t) = trim t"
  by (simp add: trim_def list_all_iff dropWhile_append2)

lemma headerMatch_groups:
  assumes "headerMatch line = Some (h, t)"
  shows "length h = hash_count line \<and> trim t = trim (drop (hash_count line) line)"
proof -
  obtain i ws where i: "h = replicate i (CHR ''#'')" "ws \<noteq> []" "list_all is_space ws" "line = h @ ws @ t"
    using hash_group_sound [of 6 line h t] assms by (auto simp: headerMatch_def)
  obtain c cs where ws: "ws = c # cs" using i(2) by (cases ws) auto
  have c: "c \<noteq> CHR ''#''" using i(3) ws space_not_hash by simp
  have "takeWhile (\<lambda>c. c = CHR ''#'') (h @ (c # cs @ t)) = h @ takeWhile (\<lambda>c. c = CHR ''#'') (c # cs @ t)"
    by (rule takeWhile_append2) (simp add: i(1))
  then have "takeWhile (\<lambda>c. c = CHR ''#'') line = h"
    unfolding i(4) ws using c by simp
  then have hc: "hash_count line = length h" by (simp add: hash_count_def)
  have "drop (length h) line = ws @ t" using i(4) by simp
  then show ?thesis using hc trim_space_prefix [OF i(3)] by simp
qed

lemma parse_lines_keys:
  "parse_lines ls i secs cur = (secs', cur') \<Longrightarrow>
   map (\<lambda>s. (startLine s, level s, title s)) secs'
     @ (case cur' of Some s \<Rightarrow> [(startLine s, level s, title s)] | None \<Rightarrow> [])
   = map (\<lambda>s. (startLine s, level s, title s)) secs
     @ (case cur of Some s \<Rightarrow> [(startLine s, level s, title s)] | None \<Rightarrow> [])
     @ map (\<lambda>(j, l). (int j, hash_count l, trim (drop (hash_count l) l)))
         (filter (\<lambda>(j, l). atx_heading l) (enumerate i ls))"
proof (induction ls arbitrary: i secs cur)
  case Nil
  then show ?case by simp
next
  case (Cons line rest)
  show ?case
  proof (cases "headerMatch line")
    case None
    then have na: "\<not> atx_heading line" using headerMatch_iff [of line] by simp
    have "parse_lines rest (Suc i) secs
            (case cur of Some s \<Rightarrow> Some (s\<lparr>Section.content := Section.content s @ line @ [newline]\<rparr>)
             | None \<Rightarrow> None) = (secs', cur')"
      using Cons.prems None by simp
    from Cons.IH [OF this] show ?thesis using na by (simp split: option.splits)
  next
    case (Some p)
    obtain h t where p: "p = (h, t)" by (cases p)
    have a: "atx_heading line" using headerMatch_iff [of line] Some by simp
    have g: "length h = hash_count line" "trim t = trim (drop (hash_count line) line)"
      using headerMatch_groups [of line h t] Some p by simp_all
    have "parse_lines rest (Suc i)
            (case cur of Some s \<Rightarrow> secs @ [s\<lparr>endLine := int i - 1\<rparr>] | None \<Rightarrow> secs)
            (Some \<lparr>title = trim t, level = length h, Section.content = line @ [newline],
                   startLine = int i, endLine = int i\<rparr>) = (secs', cur')"
      using Cons.prems Some p by simp
    from Cons.IH [OF this] show ?thesis using a g by (simp split: option.splits)
  qed
qed

text \<open>
  Claim C5, as the specification states it, at two lines. A heading whose text ends with
  a carriage return has hashes, a space and text, and opens no section; a heading with a
  tabulator after the hash has no space, and opens one.
\<close>

theorem heading_counterexample:
  "(spec_heading (''# A'' @ [CHR 0x0D]) \<and> parseSections (''# A'' @ [CHR 0x0D]) = [])
   \<and> (\<not> spec_heading (''#'' @ [CHR 0x09] @ ''A'')
      \<and> parseSections (''#'' @ [CHR 0x09] @ ''A'') \<noteq> [])"
proof -
  have a: "spec_heading (''# A'' @ [CHR 0x0D])"
    unfolding spec_heading_def
    by (intro exI [of _ 1] exI [of _ "''A'' @ [CHR 0x0D]"]) simp
  have b: "parseSections (''# A'' @ [CHR 0x0D]) = []"
    by code_simp
  have c: "\<not> spec_heading (''#'' @ [CHR 0x09] @ ''A'')"
  proof
    assume "spec_heading (''#'' @ [CHR 0x09] @ ''A'')"
    then obtain k m tx where k: "1 \<le> k" "1 \<le> m"
      and e: "''#'' @ [CHR 0x09] @ ''A'' = replicate k (CHR ''#'') @ replicate m (CHR '' '') @ tx"
      unfolding spec_heading_def by blast
    have "(replicate k (CHR ''#'') @ replicate m (CHR '' '') @ tx) ! 1 = CHR 0x09"
      using e [symmetric] by simp
    moreover have "(replicate k (CHR ''#'') @ replicate m (CHR '' '') @ tx) ! 1 \<noteq> CHR 0x09"
      using k by (cases "k = 1") (auto simp: nth_append)
    ultimately show False by simp
  qed
  have d: "parseSections (''#'' @ [CHR 0x09] @ ''A'') \<noteq> []"
    by code_simp
  show ?thesis using a b c d by blast
qed

text \<open>
  Claim C5, amended. The sections of a document are opened by exactly the lines that
  start with one to six hashes, followed by at least one character of white space (a
  space, a tabulator or another character of \<^verbatim>\<open>\s\<close>), followed by text that is not empty
  and holds no line terminator (no carriage return): the sections, in order, are those
  lines, in order. The level of a section is the number of hashes its line starts with,
  and its title is the text after the hashes, trimmed.
\<close>

theorem parseSections_headings:
  "map (\<lambda>s. (startLine s, level s, title s)) (parseSections doc) =
   map (\<lambda>(i, line). (int i, hash_count line, trim (drop (hash_count line) line)))
     (filter (\<lambda>(i, line). atx_heading line) (enumerate 0 (split doc newline)))"
proof -
  obtain secs cur where pl: "parse_lines (split doc newline) 0 [] None = (secs, cur)"
    by (cases "parse_lines (split doc newline) 0 [] None")
  have "parseSections doc =
        (case cur of Some s \<Rightarrow> secs @ [s\<lparr>endLine := int (length (split doc newline)) - 1\<rparr>]
         | None \<Rightarrow> secs)"
    by (simp add: parseSections_def Let_def pl)
  then have "map (\<lambda>s. (startLine s, level s, title s)) (parseSections doc)
        = map (\<lambda>s. (startLine s, level s, title s)) secs
          @ (case cur of Some s \<Rightarrow> [(startLine s, level s, title s)] | None \<Rightarrow> [])"
    by (simp split: option.splits)
  then show ?thesis using parse_lines_keys [OF pl] by simp
qed

section \<open>Section lookup by a returned title\<close>

lemma includes_str_sublist: "includes_str s t = sublist t s"
  by (induction s) (simp_all add: sublist_Cons_right)

lemma find_first_stable:
  assumes "find P xs = Some x" "Q x" "\<And>y. Q y \<Longrightarrow> P y"
  shows "find Q xs = Some x"
  using assms(1)
proof (induction xs)
  case Nil
  then show ?case by simp
next
  case (Cons a xs)
  show ?case
  proof (cases "P a")
    case True
    then show ?thesis using Cons.prems assms(2) by simp
  next
    case False
    then have "\<not> Q a" using assms(3) by blast
    then show ?thesis using Cons False by simp
  qed
qed

text \<open>
  Claim C7. When a query matches a section, the lookup of the title it returns gives the
  same result again: the same section, with the same title and the same body.
\<close>

theorem getSection_idempotent:
  assumes "currentSection (metadata (getSection doc query)) = Some t"
  shows "getSection doc t = getSection doc query"
proof -
  let ?P = "\<lambda>q s. includes_str (toLowerCase (title s)) (toLowerCase q)"
  obtain s where f: "find (?P query) (parseSections doc) = Some s"
    using assms by (auto simp: getSection_def Let_def no_metadata_def split: option.splits)
  then have t: "t = title s"
    using assms by (simp add: getSection_def Let_def no_metadata_def)
  have qs: "?P query s" using f by (auto simp: find_Some_iff)
  have "find (?P t) (parseSections doc) = Some s"
  proof (rule find_first_stable [OF f])
    show "?P t s" by (simp add: t includes_str_sublist)
  next
    fix y assume "?P t y"
    then show "?P query y"
      using qs unfolding t includes_str_sublist by (rule sublist_order.order.trans [rotated])
  qed
  then show ?thesis using f by (simp add: getSection_def Let_def)
qed

theorem getSection_idempotent_witness:
  "currentSection (metadata (getSection scenario_doc ''b'')) = Some ''B''
   \<and> getSection scenario_doc ''B'' = getSection scenario_doc ''b''"
proof -
  have h: "currentSection (metadata (getSection scenario_doc ''b'')) = Some ''B''"
    by code_simp
  show ?thesis using h getSection_idempotent [OF h] by simp
qed

section \<open>The dispatch of \<open>getPaginatedDocs\<close>\<close>

lemma foldl_append_prefix:
  "foldl (\<lambda>acc x. acc @ f x) a xs = a @ concat (map f xs)"
  by (induction xs arbitrary: a) simp_all

lemma toc_starts:
  "\<exists>r. PaginationResult.content (getTableOfContents doc) = ''# V'' @ r"
proof -
  let ?f = "\<lambda>(i, s). repeat ''  '' (level s - 1) @ show_nat (i + 1) @ ''. '' @ title s @ [newline]"
  have e: "(\<lambda>toc (i, s). toc @ repeat ''  '' (level s - 1) @ show_nat (i + 1) @ ''. '' @ title s @ [newline])
        = (\<lambda>toc x. toc @ ?f x)"
    by (auto simp: fun_eq_iff)
  show ?thesis
    unfolding getTableOfContents_def Let_def e foldl_append_prefix by simp
qed

lemma toc_not_section: "getTableOfContents doc \<noteq> getSection doc q"
proof (cases "find (\<lambda>s. includes_str (toLowerCase (title s)) (toLowerCase q)) (parseSections doc)")
  case None
  obtain r where r: "PaginationResult.content (getTableOfContents doc) = ''# V'' @ r"
    using toc_starts by blast
  have "PaginationResult.content (getSection doc q) \<noteq> ''# V'' @ r"
    using None by (simp add: getSection_def Let_def)
  then show ?thesis using r by metis
next
  case (Some s)
  have "currentSection (metadata (getSection doc q)) = Some (title s)"
    using Some by (simp add: getSection_def Let_def no_metadata_def)
  moreover have "currentSection (metadata (getTableOfContents doc)) = None"
    by (simp add: getTableOfContents_def Let_def no_metadata_def)
  ultimately show ?thesis by (metis option.distinct(1))
qed

text \<open>
  Claim C10. Whatever the document, the kind and the page size, a request whose section
  is the empty string and that names no page is answered with the table of contents of
  the resolved document, and so is one whose section is the empty string and whose page
  is 0; the answer is not the result of looking the empty string up as a section.
\<close>

theorem empty_section_table_of_contents:
  "getPaginatedDocs ty (Some \<lparr>section_opt = Some [], page_opt = None, pageSize_opt = ps\<rparr>) w
     = (getTableOfContents (fst (if ty = TypeFull then getLlmsFullTxt w else getLlmsTxt w)),
        snd (if ty = TypeFull then getLlmsFullTxt w else getLlmsTxt w))
   \<and> getPaginatedDocs ty (Some \<lparr>section_opt = Some [], page_opt = Some 0, pageSize_opt = ps\<rparr>) w
     = (getTableOfContents (fst (if ty = TypeFull then getLlmsFullTxt w else getLlmsTxt w)),
        snd (if ty = TypeFull then getLlmsFullTxt w else getLlmsTxt w))
   \<and> fst (getPaginatedDocs ty (Some \<lparr>section_opt = Some [], page_opt = None, pageSize_opt = ps\<rparr>) w)
     \<noteq> getSection (fst (if ty = TypeFull then getLlmsFullTxt w else getLlmsTxt w)) []"
  using toc_not_section
  by (simp add: getPaginatedDocs_def Let_def split: prod.splits)

text \<open>
  Claim C6, as the specification states it, at two requests on the state of the
  scenario: a section that is present and empty is not looked up, and a page that is
  present and 0 is not paginated. Both get the table of contents.
\<close>

theorem getPaginatedDocs_presence_counterexample:
  "fst (getPaginatedDocs TypeStandard
         (Some \<lparr>section_opt = Some [], page_opt = None, pageSize_opt = None\<rparr>) scenario_world)
     \<noteq> getSection scenario_doc []
   \<and> fst (getPaginatedDocs TypeStandard
         (Some \<lparr>section_opt = None, page_opt = Some 0, pageSize_opt = None\<rparr>) scenario_world)
     \<noteq> getPage scenario_doc 0 5000"
  by code_simp

text \<open>
  Claim C6, amended. With the document resolved for the kind: a request with no options,
  or with no section or an empty one and no page or page 0, gets the table of contents;
  a request with a section that is not empty gets the lookup of that section, whatever
  its page; any other request with a page that is not 0 gets numeric pagination, with a
  page size of 5000 where none is given or 0 is given.
\<close>

theorem getPaginatedDocs_dispatch:
  assumes "(if ty = TypeFull then getLlmsFullTxt w else getLlmsTxt w) = (fullContent, w')"
  shows "getPaginatedDocs ty None w = (getTableOfContents fullContent, w')
    \<and> ((section_opt opts = None \<or> section_opt opts = Some [])
         \<and> (page_opt opts = None \<or> page_opt opts = Some 0)
       \<longrightarrow> getPaginatedDocs ty (Some opts) w = (getTableOfContents fullContent, w'))
    \<and> (section_opt opts = Some s \<and> s \<noteq> []
       \<longrightarrow> getPaginatedDocs ty (Some opts) w = (getSection fullContent s, w'))
    \<and> ((section_opt opts = None \<or> section_opt opts = Some [])
         \<and> page_opt opts = Some p \<and> p \<noteq> 0
       \<longrightarrow> getPaginatedDocs ty (Some opts) w
             = (getPage fullContent p
                  (case pageSize_opt opts of None \<Rightarrow> 5000
                   | Some n \<Rightarrow> if n = 0 then 5000 else n), w'))"
  using assms
  by (auto simp: getPaginatedDocs_def Let_def split: prod.splits option.splits)

lemma scenario_resolution:
  "getLlmsTxt scenario_world = (scenario_doc, scenario_world)"
  by (simp add: getLlmsTxt_def getDocumentContent_def get_cache_def scenario_world_def
      isCacheValid_def CACHE_TTL_MS_def)

theorem getPaginatedDocs_dispatch_witness:
  "getPaginatedDocs TypeStandard None scenario_world
     = (getTableOfContents scenario_doc, scenario_world)
   \<and> getPaginatedDocs TypeStandard
       (Some \<lparr>section_opt = None, page_opt = Some 0, pageSize_opt = None\<rparr>) scenario_world
     = (getTableOfContents scenario_doc, scenario_world)
   \<and> getPaginatedDocs TypeStandard
       (Some \<lparr>section_opt = Some ''b'', page_opt = Some 2, pageSize_opt = None\<rparr>) scenario_world
     = (getSection scenario_doc ''b'', scenario_world)
   \<and> getPaginatedDocs TypeStandard
       (Some \<lparr>section_opt = Some [], page_opt = Some 2, pageSize_opt = Some 0\<rparr>) scenario_world
     = (getPage scenario_doc 2 5000, scenario_world)
   \<and> getPaginatedDocs TypeStandard
       (Some \<lparr>section_opt = None, page_opt = Some 2, pageSize_opt = Some 3\<rparr>) scenario_world
     = (getPage scenario_doc 2 3, scenario_world)"
proof -
  have r: "(if TypeStandard = TypeFull then getLlmsFullTxt scenario_world
            else getLlmsTxt scenario_world) = (scenario_doc, scenario_world)"
    by (simp add: scenario_resolution)
  show ?thesis
    using getPaginatedDocs_dispatch [OF r,
        of "\<lparr>section_opt = None, page_opt = Some 0, pageSize_opt = None\<rparr>" "[]" 0]
      getPaginatedDocs_dispatch [OF r,
        of "\<lparr>section_opt = Some ''b'', page_opt = Some 2, pageSize_opt = None\<rparr>" "''b''" 2]
      getPaginatedDocs_dispatch [OF r,
        of "\<lparr>section_opt = Some [], page_opt = Some 2, pageSize_opt = Some 0\<rparr>" "[]" 2]
      getPaginatedDocs_dispatch [OF r,
        of "\<lparr>section_opt = None, page_opt = Some 2, pageSize_opt = Some 3\<rparr>" "[]" 2]
    by simp
qed

section \<open>Resolution: the cache fields and the files it touches\<close>

lemma elapse_fields [simp]:
  "requests (elapse d w) = requests w"
  "llmsTxtCache (elapse d w) = llmsTxtCache w"
  "llmsFullTxtCache (elapse d w) = llmsFullTxtCache w"
  "files (elapse d w) = files w"
  "projectPath (elapse d w) = projectPath w"
  "can_unlink (elapse d w) = can_unlink w"
  "disk_delay (elapse d w) = disk_delay w"
  "now (elapse d w) = now w + int d"
  by (simp_all add: elapse_def)

lemma set_cache_fields [simp]:
  "requests (set_cache t c w) = requests w"
  "files (set_cache t c w) = files w"
  by (simp_all add: set_cache_def)

lemma saveToDiskCache_fields [simp]:
  "requests (saveToDiskCache f c w) = requests w"
  "llmsTxtCache (saveToDiskCache f c w) = llmsTxtCache w"
  "llmsFullTxtCache (saveToDiskCache f c w) = llmsFullTxtCache w"
  by (simp_all add: saveToDiskCache_def)

lemma loadFromDiskCache_fields [simp]:
  "requests (snd (loadFromDiskCache f w)) = requests w"
  "llmsTxtCache (snd (loadFromDiskCache f w)) = llmsTxtCache w"
  "llmsFullTxtCache (snd (loadFromDiskCache f w)) = llmsFullTxtCache w"
  "projectPath (snd (loadFromDiskCache f w)) = projectPath w"
  by (simp_all add: loadFromDiskCache_def Let_def split: option.splits DiskFile.splits)

lemma fetchFromWeb_fields [simp]:
  "fst (fetchFromWeb f w) = web w (VENDURE_DOCS_BASE_URL @ ''/'' @ f)"
  "requests (snd (fetchFromWeb f w)) = requests w @ [VENDURE_DOCS_BASE_URL @ ''/'' @ f]"
  "llmsTxtCache (snd (fetchFromWeb f w)) = llmsTxtCache w"
  "llmsFullTxtCache (snd (fetchFromWeb f w)) = llmsFullTxtCache w"
  "files (snd (fetchFromWeb f w)) = files w"
  "projectPath (snd (fetchFromWeb f w)) = projectPath w"
  "can_unlink (snd (fetchFromWeb f w)) = can_unlink w"
  "disk_delay (snd (fetchFromWeb f w)) = disk_delay w"
  "now (snd (fetchFromWeb f w)) = now w + int (web_delay w)"
  by (simp_all add: fetchFromWeb_def Let_def)

lemma served_from_memory:
  assumes "get_cache cacheType w = Some c" "isCacheValid c w"
  shows "getDocumentContent filename cacheType w = (CachedContent.content c, w)"
  using assms by (simp add: getDocumentContent_def)

lemma refetch_requests:
  assumes "\<And>c. get_cache cacheType w = Some c \<Longrightarrow> \<not> isCacheValid c w"
  shows "requests (snd (getDocumentContent filename cacheType w))
         = requests w @ [VENDURE_DOCS_BASE_URL @ ''/'' @ filename]"
proof -
  obtain r w1 where f: "fetchFromWeb filename w = (r, w1)" by (cases "fetchFromWeb filename w")
  have w1: "requests w1 = requests w @ [VENDURE_DOCS_BASE_URL @ ''/'' @ filename]"
    using fetchFromWeb_fields(2) [of filename w] f by simp
  obtain d w2 where l: "loadFromDiskCache filename w1 = (d, w2)"
    by (cases "loadFromDiskCache filename w1")
  have w2: "requests w2 = requests w1"
    using loadFromDiskCache_fields(1) [of filename w1] l by simp
  have "(case get_cache cacheType w of None \<Rightarrow> None
         | Some c \<Rightarrow> if isCacheValid c w then Some c else None) = None"
    using assms by (cases "get_cache cacheType w") auto
  then show ?thesis
    using f l w1 w2
    by (simp add: getDocumentContent_def Let_def split: option.splits)
qed

lemma fetch_world_resolved:
  "snd (getLlmsTxt fetch_world)
     = fetch_world\<lparr>now := 1005,
         llmsTxtCache := Some \<lparr>CachedContent.content = scenario_doc, timestamp = 1005\<rparr>,
         requests := [''https://docs.vendure.io/llms.txt''],
         files := (\<lambda>name. None)(''llms.txt.json'' \<mapsto>
            Stored \<lparr>CachedContent.content = scenario_doc, timestamp = 1005\<rparr>)\<rparr>"
  by (simp add: getLlmsTxt_def getDocumentContent_def get_cache_def fetch_world_def
      scenario_world_def fetchFromWeb_def VENDURE_DOCS_BASE_URL_def elapse_def set_cache_def
      saveToDiskCache_def Let_def)

text \<open>
  Claim C8. For a document in the memory cache, fetched at the time of its time stamp:
  it is valid exactly when less than 24 hours (86400000 ms) have passed, stale from
  24 hours on. Asked for one millisecond before the 24 hours are over, and at any time
  at which it is valid, it is returned from the memory cache and the state is
  unchanged, so no request is sent; asked for one millisecond after, and at any time at
  which it is stale, one request for the document is sent to the server.
\<close>

theorem cache_freshness:
  assumes "get_cache cacheType w = Some c"
  shows "isCacheValid c w = (\<not> CACHE_TTL_MS \<le> now w - timestamp c)
    \<and> CACHE_TTL_MS = 24 * 60 * 60 * 1000
    \<and> (now w = timestamp c + CACHE_TTL_MS - 1 \<longrightarrow>
         getDocumentContent filename cacheType w = (CachedContent.content c, w))
    \<and> (now w = timestamp c + CACHE_TTL_MS + 1 \<longrightarrow>
         requests (snd (getDocumentContent filename cacheType w))
           = requests w @ [VENDURE_DOCS_BASE_URL @ ''/'' @ filename])
    \<and> (now w - timestamp c < CACHE_TTL_MS \<longrightarrow>
         getDocumentContent filename cacheType w = (CachedContent.content c, w))
    \<and> (CACHE_TTL_MS \<le> now w - timestamp c \<longrightarrow>
         requests (snd (getDocumentContent filename cacheType w))
           = requests w @ [VENDURE_DOCS_BASE_URL @ ''/'' @ filename])"
proof -
  have v: "isCacheValid c w = (\<not> CACHE_TTL_MS \<le> now w - timestamp c)"
    by (auto simp: isCacheValid_def)
  have a: "now w - timestamp c < CACHE_TTL_MS \<Longrightarrow>
         getDocumentContent filename cacheType w = (CachedContent.content c, w)"
    using served_from_memory [OF assms] by (simp add: isCacheValid_def)
  have b: "CACHE_TTL_MS \<le> now w - timestamp c \<Longrightarrow>
         requests (snd (getDocumentContent filename cacheType w))
           = requests w @ [VENDURE_DOCS_BASE_URL @ ''/'' @ filename]"
    using refetch_requests [of cacheType w] assms by (simp add: isCacheValid_def)
  show ?thesis using v a b by (simp add: CACHE_TTL_MS_def)
qed

theorem cache_freshness_witness:
  "get_cache CacheLlms (snd (getLlmsTxt fetch_world))
     = Some \<lparr>CachedContent.content = scenario_doc, timestamp = 1005\<rparr>
   \<and> getDocumentContent ''llms.txt'' CacheLlms
       ((snd (getLlmsTxt fetch_world))\<lparr>now := 1005 + CACHE_TTL_MS - 1\<rparr>)
     = (scenario_doc, (snd (getLlmsTxt fetch_world))\<lparr>now := 1005 + CACHE_TTL_MS - 1\<rparr>)
   \<and> requests (snd (getDocumentContent ''llms.txt'' CacheLlms
       ((snd (getLlmsTxt fetch_world))\<lparr>now := 1005 + CACHE_TTL_MS + 1\<rparr>)))
     = [''https://docs.vendure.io/llms.txt'', ''https://docs.vendure.io/llms.txt'']"
proof -
  let ?c = "\<lparr>CachedContent.content = scenario_doc, timestamp = 1005\<rparr>"
  let ?w = "snd (getLlmsTxt fetch_world)"
  have c: "get_cache CacheLlms ?w = Some ?c"
    by (simp add: fetch_world_resolved get_cache_def)
  have c1: "get_cache CacheLlms (?w\<lparr>now := 1005 + CACHE_TTL_MS - 1\<rparr>) = Some ?c"
    using c by (simp add: get_cache_def)
  have c2: "get_cache CacheLlms (?w\<lparr>now := 1005 + CACHE_TTL_MS + 1\<rparr>) = Some ?c"
    using c by (simp add: get_cache_def)
  have r: "requests ?w = [''https://docs.vendure.io/llms.txt'']"
    by (simp add: fetch_world_resolved)
  show ?thesis
    using c cache_freshness [OF c1, of "''llms.txt''"] cache_freshness [OF c2, of "''llms.txt''"] r
    by (simp add: VENDURE_DOCS_BASE_URL_def)
qed

text \<open>
  Claim C9, as the specification states it, on a state where the server does not answer
  and the copy on disk is stale: the fallback text is returned, and the file of the disk
  cache is deleted, so the disk cache is not left as it was.
\<close>

theorem fallback_frame_counterexample:
  "web stale_disk_world ''https://docs.vendure.io/llms.txt'' = None
   \<and> fst (getLlmsTxt stale_disk_world) = getFallbackLlmsTxt
   \<and> files (snd (getLlmsTxt stale_disk_world)) \<noteq> files stale_disk_world"
proof -
  have "files stale_disk_world ''llms.txt.json''
          = Some (Stored \<lparr>CachedContent.content = scenario_doc, timestamp = 1000\<rparr>)
        \<and> files (snd (getLlmsTxt stale_disk_world)) ''llms.txt.json'' = None
        \<and> web stale_disk_world ''https://docs.vendure.io/llms.txt'' = None
        \<and> fst (getLlmsTxt stale_disk_world) = getFallbackLlmsTxt"
    by (simp add: getLlmsTxt_def getDocumentContent_def get_cache_def stale_disk_world_def
        scenario_world_def fetchFromWeb_def VENDURE_DOCS_BASE_URL_def elapse_def
        loadFromDiskCache_def isCacheValid_def CACHE_TTL_MS_def getFallbackContent_def Let_def)
  then show ?thesis by (metis option.distinct(1))
qed

text \<open>
  Claim C9, amended. When the memory cache holds no valid copy, the request to the
  server fails and the file of the disk cache is absent, does not parse or holds a stale
  copy, the resolution returns the fallback text of the file name, with the header of
  the project context before it for the full kind where the project context is
  available. The two fields of the memory cache are unchanged. The files of the disk
  cache are unchanged where the file is absent or does not parse; a stale file is
  deleted, where deleting succeeds, and no other file changes.
\<close>

theorem fallback_frame:
  assumes "get_cache cacheType w = None \<or> (\<exists>c. get_cache cacheType w = Some c \<and> \<not> isCacheValid c w)"
    and "web w (VENDURE_DOCS_BASE_URL @ ''/'' @ filename) = None"
    and "files w (filename @ ''.json'') = None \<or> files w (filename @ ''.json'') = Some Unparsable
         \<or> (\<exists>c. files w (filename @ ''.json'') = Some (Stored c)
               \<and> CACHE_TTL_MS \<le> now w + int (web_delay w) + int (disk_delay w) - timestamp c)"
  shows "fst (getDocumentContent filename cacheType w)
           = (if cacheType = CacheFull
              then enhanceWithProjectContext (getFallbackContent filename) w
              else getFallbackContent filename)
    \<and> llmsTxtCache (snd (getDocumentContent filename cacheType w)) = llmsTxtCache w
    \<and> llmsFullTxtCache (snd (getDocumentContent filename cacheType w)) = llmsFullTxtCache w
    \<and> files (snd (getDocumentContent filename cacheType w))
        = (case files w (filename @ ''.json'') of
             Some (Stored c) \<Rightarrow>
               if can_unlink w then (files w)(filename @ ''.json'' := None) else files w
           | Some Unparsable \<Rightarrow> files w
           | None \<Rightarrow> files w)"
proof -
  obtain r w1 where f: "fetchFromWeb filename w = (r, w1)" by (cases "fetchFromWeb filename w")
  have r: "r = None" using fetchFromWeb_fields(1) [of filename w] f assms(2) by simp
  have w1: "llmsTxtCache w1 = llmsTxtCache w" "llmsFullTxtCache w1 = llmsFullTxtCache w"
    "files w1 = files w" "projectPath w1 = projectPath w" "can_unlink w1 = can_unlink w"
    "disk_delay w1 = disk_delay w" "now w1 = now w + int (web_delay w)"
    using fetchFromWeb_fields [of filename w] f by simp_all
  obtain d w2 where l: "loadFromDiskCache filename w1 = (d, w2)"
    by (cases "loadFromDiskCache filename w1")
  have d: "d = None"
    using l assms(3) w1
    by (auto simp: loadFromDiskCache_def Let_def isCacheValid_def split: option.splits DiskFile.splits if_splits)
  have w2: "llmsTxtCache w2 = llmsTxtCache w" "llmsFullTxtCache w2 = llmsFullTxtCache w"
    "projectPath w2 = projectPath w"
    using loadFromDiskCache_fields [of filename w1] l w1 by simp_all
  have fl: "files w2 = (case files w (filename @ ''.json'') of
             Some (Stored c) \<Rightarrow>
               if can_unlink w then (files w)(filename @ ''.json'' := None) else files w
           | Some Unparsable \<Rightarrow> files w
           | None \<Rightarrow> files w)"
    using l assms(3) w1
    by (auto simp: loadFromDiskCache_def Let_def isCacheValid_def split: option.splits DiskFile.splits if_splits)
  have m: "(case get_cache cacheType w of None \<Rightarrow> None
         | Some c \<Rightarrow> if isCacheValid c w then Some c else None) = None"
    using assms(1) by auto
  have e: "enhanceWithProjectContext (getFallbackContent filename) w2
           = enhanceWithProjectContext (getFallbackContent filename) w"
    using w2(3) by (simp add: enhanceWithProjectContext_def)
  have g: "getDocumentContent filename cacheType w
        = (if cacheType = CacheFull
              then enhanceWithProjectContext (getFallbackContent filename) w2
              else getFallbackContent filename, w2)"
    using m f r l d by (simp add: getDocumentContent_def Let_def)
  show ?thesis
    unfolding g using e w2 fl by simp
qed

theorem fallback_frame_witness:
  "fst (getLlmsTxt stale_disk_world) = getFallbackLlmsTxt
   \<and> llmsTxtCache (snd (getLlmsTxt stale_disk_world)) = None
   \<and> llmsFullTxtCache (snd (getLlmsTxt stale_disk_world)) = None
   \<and> files (snd (getLlmsTxt stale_disk_world)) = (\<lambda>name. None)"
proof -
  have a: "get_cache CacheLlms stale_disk_world = None
           \<or> (\<exists>c. get_cache CacheLlms stale_disk_world = Some c \<and> \<not> isCacheValid c stale_disk_world)"
    by (simp add: get_cache_def stale_disk_world_def scenario_world_def)
  have b: "web stale_disk_world (VENDURE_DOCS_BASE_URL @ ''/'' @ ''llms.txt'') = None"
    by (simp add: stale_disk_world_def scenario_world_def)
  have c: "files stale_disk_world (''llms.txt'' @ ''.json'') = None
         \<or> files stale_disk_world (''llms.txt'' @ ''.json'') = Some Unparsable
         \<or> (\<exists>c. files stale_disk_world (''llms.txt'' @ ''.json'') = Some (Stored c)
               \<and> CACHE_TTL_MS \<le> now stale_disk_world + int (web_delay stale_disk_world)
                    + int (disk_delay stale_disk_world) - timestamp c)"
    by (simp add: stale_disk_world_def scenario_world_def CACHE_TTL_MS_def)
  show ?thesis
    using fallback_frame [OF a b c]
    by (auto simp: getLlmsTxt_def getFallbackContent_def stale_disk_world_def scenario_world_def fun_eq_iff)
qed

end
